theory Spec2Isabelle
  imports Main
begin

section \<open>The idtimestamp decoders of \<^verbatim>\<open>scripts/idtimestamp-unixms.py\<close> and
  \<^verbatim>\<open>scripts/idtimestamp_to_utc.py\<close>\<close>

text \<open>
  A Python \<^verbatim>\<open>str\<close> is modelled as a \<^typ>\<open>string\<close> whose characters are the code
  points \<open>0 .. 255\<close>, so \<^const>\<open>length\<close> counts what Python's \<^verbatim>\<open>len\<close> counts.
  Python's unbounded \<^verbatim>\<open>int\<close> is \<^typ>\<open>int\<close>, a \<^verbatim>\<open>bytes\<close> object is a list of
  naturals below 256. Every \<^verbatim>\<open>raise\<close> of the scripts and of the built-ins they call is
  a value \<open>Inl e\<close> of the result type.
\<close>

subsection \<open>Errors\<close>

text \<open>
  Every exception the two functions raise is a Python \<^verbatim>\<open>ValueError\<close>; the constructors
  tell the raise sites apart.
  \<^item> \<open>InvalidLength n\<close>: \<^verbatim>\<open>len(id_val) not in (16, 18)\<close>, with the observed length;
  \<^item> \<open>InvalidPayloadLength n\<close>: the payload is not 16 characters after the epoch strip;
  \<^item> \<open>TooShort\<close>: fewer than 3 decoded bytes;
  \<^item> \<open>InvalidLiteral b s\<close>: raised by \<^verbatim>\<open>int(s, b)\<close>;
  \<^item> \<open>NonHexadecimal\<close>: raised by \<^verbatim>\<open>bytes.fromhex\<close>;
  \<^item> \<open>TimestampError\<close>: any exception of \<^verbatim>\<open>datetime.utcfromtimestamp\<close>.
\<close>

datatype error =
    InvalidLength nat
  | InvalidPayloadLength nat
  | TooShort
  | InvalidLiteral nat string
  | NonHexadecimal
  | TimestampError

text \<open>The decimal rendering of a length by an f-string, \<^verbatim>\<open>f"{len(id_val)}"\<close>.\<close>

fun dec_str :: "nat \<Rightarrow> string" where
  "dec_str n =
     (if n < 10 then [char_of (48 + n)]
      else dec_str (n div 10) @ [char_of (48 + n mod 10)])"

declare dec_str.simps [simp del]

fun message :: "error \<Rightarrow> string" where
  "message (InvalidLength n) = ''idtimestamp must be 16 or 18 hex chars, got '' @ dec_str n"
| "message (InvalidPayloadLength n) =
     ''idtimestamp payload length must be 16 hex chars after epoch strip, got '' @ dec_str n"
| "message TooShort = ''idtimestamp payload too short to strip sequence/generator bytes''"
| "message _ = []"

subsection \<open>Python built-ins\<close>

type_synonym byte = nat

text \<open>\<^verbatim>\<open>s.startswith(p)\<close>.\<close>

definition startswith :: "string \<Rightarrow> string \<Rightarrow> bool" where
  "startswith s p = (take (length p) s = p)"

text \<open>
  Lines 18 and 19 of both scripts: \<^verbatim>\<open>if id_val.startswith("0x"): id_val = id_val[2:]\<close>.
\<close>

definition strip_0x :: "string \<Rightarrow> string" where
  "strip_0x id_val = (if startswith id_val ''0x'' then drop 2 id_val else id_val)"

text \<open>CPython's \<^verbatim>\<open>Py_ISSPACE\<close>: tab, line feed, vertical tab, form feed, carriage return, space.\<close>

definition py_isspace :: "char \<Rightarrow> bool" where
  "py_isspace c = (let n = (of_char c :: nat) in (9 \<le> n \<and> n \<le> 13) \<or> n = 32)"

text \<open>CPython's table \<^verbatim>\<open>_PyLong_DigitValue\<close>: 37 marks a character that is no digit.\<close>

definition digit_value :: "char \<Rightarrow> nat" where
  "digit_value c =
     (let n = (of_char c :: nat) in
      if 48 \<le> n \<and> n \<le> 57 then n - 48
      else if 97 \<le> n \<and> n \<le> 122 then n - 87
      else if 65 \<le> n \<and> n \<le> 90 then n - 55
      else 37)"

text \<open>
  \<^verbatim>\<open>int(s, base)\<close> on a \<^verbatim>\<open>str\<close>, as CPython computes it. First
  \<^verbatim>\<open>_PyUnicode_TransformDecimalAndSpaceToASCII\<close>: an ASCII string is kept; otherwise
  every code point from 127 on becomes a space when it is Unicode white space (below
  256: U+0085 and U+00A0) and ends the string with a question mark when it is no decimal
  digit (below 256 there is none from 127 on).
\<close>

fun transform_chars :: "string \<Rightarrow> string" where
  "transform_chars [] = []"
| "transform_chars (c # cs) =
     (let n = (of_char c :: nat) in
      if n < 127 then c # transform_chars cs
      else if n = 133 \<or> n = 160 then CHR '' '' # transform_chars cs
      else ''?'')"

definition transform_decimal_and_space :: "string \<Rightarrow> string" where
  "transform_decimal_and_space u =
     (if list_all (\<lambda>c. (of_char c :: nat) < 128) u then u else transform_chars u)"

text \<open>
  Then \<^verbatim>\<open>PyLong_FromString\<close>: leading white space, a sign, for base 16, 8 and 2 the
  prefix \<^verbatim>\<open>0x\<close>, \<^verbatim>\<open>0o\<close>, \<^verbatim>\<open>0b\<close> with one underscore after it, the digits with single
  underscores between them, trailing white space, and nothing more. (The limit of 4300
  digits is not modelled: the scripts pass at most 10 characters.)
\<close>

definition has_base_prefix :: "nat \<Rightarrow> string \<Rightarrow> bool" where
  "has_base_prefix base str =
     (case str of
        c0 # c1 # _ \<Rightarrow>
          c0 = CHR ''0'' \<and>
          ((base = 16 \<and> (c1 = CHR ''x'' \<or> c1 = CHR ''X'')) \<or>
           (base = 8 \<and> (c1 = CHR ''o'' \<or> c1 = CHR ''O'')) \<or>
           (base = 2 \<and> (c1 = CHR ''b'' \<or> c1 = CHR ''B'')))
      | _ \<Rightarrow> False)"

fun double_underscore :: "string \<Rightarrow> bool" where
  "double_underscore (c # d # cs) =
     ((c = CHR ''_'' \<and> d = CHR ''_'') \<or> double_underscore (d # cs))"
| "double_underscore _ = False"

definition digits_value :: "nat \<Rightarrow> string \<Rightarrow> nat" where
  "digits_value base ds =
     foldl (\<lambda>a c. a * base + digit_value c) 0 (filter (\<lambda>c. c \<noteq> CHR ''_'') ds)"

definition PyLong_FromString :: "nat \<Rightarrow> string \<Rightarrow> int option" where
  "PyLong_FromString base str0 =
     (let str1 = dropWhile py_isspace str0;
          negative = (take 1 str1 = ''-'');
          str2 = (if take 1 str1 = ''+'' \<or> take 1 str1 = ''-'' then drop 1 str1 else str1);
          str3 = (if has_base_prefix base str2
                  then (if take 1 (drop 2 str2) = ''_'' then drop 3 str2 else drop 2 str2)
                  else str2);
          is_digit = (\<lambda>c. digit_value c < base \<or> c = CHR ''_'');
          digits = takeWhile is_digit str3;
          rest = dropWhile is_digit str3
      in if take 1 str3 = ''_'' then None
         else if double_underscore digits then None
         else if digits \<noteq> [] \<and> last digits = CHR ''_'' then None
         else if digits = [] then None
         else if dropWhile py_isspace rest \<noteq> [] then None
         else Some (if negative then - int (digits_value base digits)
                    else int (digits_value base digits)))"

definition py_int :: "nat \<Rightarrow> string \<Rightarrow> error + int" where
  "py_int base u =
     (case PyLong_FromString base (transform_decimal_and_space u) of
        None \<Rightarrow> Inl (InvalidLiteral base u)
      | Some v \<Rightarrow> Inr v)"

text \<open>
  \<^verbatim>\<open>bytes.fromhex(s)\<close>: a string with a code point from 128 on is refused; ASCII white
  space is skipped between bytes, never inside one; each byte is two hexadecimal digits.
\<close>

fun fromhex_loop :: "string \<Rightarrow> byte list option" where
  "fromhex_loop [] = Some []"
| "fromhex_loop [c] = (if py_isspace c then Some [] else None)"
| "fromhex_loop (c # d # cs) =
     (if py_isspace c then fromhex_loop (d # cs)
      else if digit_value c < 16 \<and> digit_value d < 16
      then map_option ((#) (digit_value c * 16 + digit_value d)) (fromhex_loop cs)
      else None)"

definition bytes_fromhex :: "string \<Rightarrow> error + byte list" where
  "bytes_fromhex s =
     (if list_ex (\<lambda>c. (128::nat) \<le> of_char c) s then Inl NonHexadecimal
      else case fromhex_loop s of None \<Rightarrow> Inl NonHexadecimal | Some bs \<Rightarrow> Inr bs)"

text \<open>\<^verbatim>\<open>b.hex()\<close>: two lower-case hexadecimal digits per byte.\<close>

definition hexdigit :: "nat \<Rightarrow> char" where
  "hexdigit n = ''0123456789abcdef'' ! n"

definition bytes_hex :: "byte list \<Rightarrow> string" where
  "bytes_hex bs = concat (map (\<lambda>b. [hexdigit (b div 16), hexdigit (b mod 16)]) bs)"

subsection \<open>\<^verbatim>\<open>unixms\<close> (scripts/idtimestamp-unixms.py)\<close>

text \<open>
  The slices are \<^verbatim>\<open>id_val[:2]\<close> = \<open>take 2\<close>, \<^verbatim>\<open>id_val[2:]\<close> = \<open>drop 2\<close> and
  \<^verbatim>\<open>raw_bytes[:-3]\<close> = \<open>take (length raw_bytes - 3)\<close> (empty when there are at most 3
  bytes). The function decodes the payload twice, as the script does.
\<close>

definition unixms :: "string \<Rightarrow> int \<Rightarrow> error + int" where
  "unixms id_val0 epoch0 =
     (let id_val1 = strip_0x id_val0 in
      if length id_val1 \<noteq> 16 \<and> length id_val1 \<noteq> 18
      then Inl (InvalidLength (length id_val1))
      else
        (case (if length id_val1 = 18
               then (case py_int 10 (take 2 id_val1) of
                       Inl e \<Rightarrow> Inl e
                     | Inr v \<Rightarrow> Inr (v, drop 2 id_val1))
               else Inr (epoch0, id_val1)) of
           Inl e \<Rightarrow> Inl e
         | Inr (epoch, id_val) \<Rightarrow>
             (if length id_val \<noteq> 16 then Inl (InvalidPayloadLength (length id_val))
              else
                (case bytes_fromhex id_val of
                   Inl e \<Rightarrow> Inl e
                 | Inr raw_bytes0 \<Rightarrow>
                     (if length raw_bytes0 < 3 then Inl TooShort
                      else
                        (case bytes_fromhex id_val of
                           Inl e \<Rightarrow> Inl e
                         | Inr raw_bytes \<Rightarrow>
                             (if length raw_bytes < 3 then Inl TooShort
                              else
                                (case py_int 16
                                        (bytes_hex (take (length raw_bytes - 3) raw_bytes)) of
                                   Inl e \<Rightarrow> Inl e
                                 | Inr t \<Rightarrow> Inr (t + epoch * (2 ^ 40 - 1))))))))))"

subsection \<open>\<^verbatim>\<open>idtimestamp_to_datetime\<close> (scripts/idtimestamp_to_utc.py)\<close>

text \<open>
  The floating-point division \<^verbatim>\<open>unixms / 1000.0\<close> and the library call
  \<^verbatim>\<open>datetime.datetime.utcfromtimestamp\<close> are parameters: \<open>truediv_1000\<close> gives the
  float, \<open>utcfromtimestamp\<close> the date and time, or \<open>None\<close> when the library raises.
  The local variable \<^verbatim>\<open>unixms\<close> is \<open>unixms_value\<close> here.
\<close>

definition idtimestamp_to_datetime ::
  "('f \<Rightarrow> 'd option) \<Rightarrow> (int \<Rightarrow> 'f) \<Rightarrow> string \<Rightarrow> error + ('d \<times> int \<times> 'f)" where
  "idtimestamp_to_datetime utcfromtimestamp truediv_1000 id_val0 =
     (let id_val1 = strip_0x id_val0 in
      if length id_val1 \<noteq> 16 \<and> length id_val1 \<noteq> 18
      then Inl (InvalidLength (length id_val1))
      else
        (case (if length id_val1 = 18
               then (case py_int 10 (take 2 id_val1) of
                       Inl e \<Rightarrow> Inl e
                     | Inr v \<Rightarrow> Inr (v, drop 2 id_val1))
               else Inr (1, id_val1)) of
           Inl e \<Rightarrow> Inl e
         | Inr (epoch, id_val) \<Rightarrow>
             (if length id_val \<noteq> 16 then Inl (InvalidPayloadLength (length id_val))
              else
                (case bytes_fromhex id_val of
                   Inl e \<Rightarrow> Inl e
                 | Inr raw_bytes \<Rightarrow>
                     (if length raw_bytes < 3 then Inl TooShort
                      else
                        (case py_int 16
                                (bytes_hex (take (length raw_bytes - 3) raw_bytes)) of
                           Inl e \<Rightarrow> Inl e
                         | Inr t \<Rightarrow>
                             (let unixms_value = t + epoch * (2 ^ 40 - 1);
                                  seconds = truediv_1000 unixms_value
                              in (case utcfromtimestamp seconds of
                                    None \<Rightarrow> Inl TimestampError
                                  | Some dt \<Rightarrow> Inr (dt, unixms_value, seconds)))))))))"

subsection \<open>Runs of the two functions\<close>

text \<open>
  A run of a function body ends at one of its exits, a \<^verbatim>\<open>raise\<close> or the \<^verbatim>\<open>return\<close>.
  The two relations below hold between the arguments of a call and the outcome of a run;
  they have one rule for every exit, and the premises of a rule are the conditions under
  which control reaches that exit, in the order of the source. The built-ins are the
  functions above.

  \<open>epoch_strip\<close> is the statement \<^verbatim>\<open>if len(id_val) == 18: epoch = int(id_val[:2]);
  id_val = id_val[2:]\<close> when it does not raise: it relates the identifier and the epoch
  before it to the epoch and the identifier after it.
\<close>

inductive epoch_strip :: "string \<Rightarrow> int \<Rightarrow> int \<times> string \<Rightarrow> bool" where
  explicit_epoch:
    "length id_val = 18 \<Longrightarrow> py_int 10 (take 2 id_val) = Inr v \<Longrightarrow>
     epoch_strip id_val epoch (v, drop 2 id_val)"
| default_epoch:
    "length id_val \<noteq> 18 \<Longrightarrow> epoch_strip id_val epoch (epoch, id_val)"


text \<open>
  \<^verbatim>\<open>idtimestamp_to_datetime\<close>: the same exits (lines 22, 26, 30, 34, 36 and 38), then
  \<^verbatim>\<open>utcfromtimestamp\<close> raising in line 40 and the \<^verbatim>\<open>return\<close> of line 40. The epoch
  before the strip is the 1 of line 24.
\<close>

inductive idtimestamp_to_datetime_run ::
  "('f \<Rightarrow> 'd option) \<Rightarrow> (int \<Rightarrow> 'f) \<Rightarrow> string \<Rightarrow> error + ('d \<times> int \<times> 'f) \<Rightarrow> bool"
  for utcfromtimestamp :: "'f \<Rightarrow> 'd option" and truediv_1000 :: "int \<Rightarrow> 'f" where
  dt_raise_invalid_length:
    "length (strip_0x id_val0) \<noteq> 16 \<Longrightarrow> length (strip_0x id_val0) \<noteq> 18 \<Longrightarrow>
     idtimestamp_to_datetime_run utcfromtimestamp truediv_1000 id_val0
       (Inl (InvalidLength (length (strip_0x id_val0))))"
| dt_raise_int_epoch:
    "length (strip_0x id_val0) = 18 \<Longrightarrow> py_int 10 (take 2 (strip_0x id_val0)) = Inl err \<Longrightarrow>
     idtimestamp_to_datetime_run utcfromtimestamp truediv_1000 id_val0 (Inl err)"
| dt_raise_payload_length:
    "length (strip_0x id_val0) \<in> {16, 18} \<Longrightarrow>
     epoch_strip (strip_0x id_val0) 1 (epoch, id_val) \<Longrightarrow>
     length id_val \<noteq> 16 \<Longrightarrow>
     idtimestamp_to_datetime_run utcfromtimestamp truediv_1000 id_val0
       (Inl (InvalidPayloadLength (length id_val)))"
| dt_raise_fromhex:
    "length (strip_0x id_val0) \<in> {16, 18} \<Longrightarrow>
     epoch_strip (strip_0x id_val0) 1 (epoch, id_val) \<Longrightarrow>
     length id_val = 16 \<Longrightarrow> bytes_fromhex id_val = Inl err \<Longrightarrow>
     idtimestamp_to_datetime_run utcfromtimestamp truediv_1000 id_val0 (Inl err)"
| dt_raise_too_short:
    "length (strip_0x id_val0) \<in> {16, 18} \<Longrightarrow>
     epoch_strip (strip_0x id_val0) 1 (epoch, id_val) \<Longrightarrow>
     length id_val = 16 \<Longrightarrow> bytes_fromhex id_val = Inr raw_bytes \<Longrightarrow>
     length raw_bytes < 3 \<Longrightarrow>
     idtimestamp_to_datetime_run utcfromtimestamp truediv_1000 id_val0 (Inl TooShort)"
| dt_raise_int_time:
    "length (strip_0x id_val0) \<in> {16, 18} \<Longrightarrow>
     epoch_strip (strip_0x id_val0) 1 (epoch, id_val) \<Longrightarrow>
     length id_val = 16 \<Longrightarrow> bytes_fromhex id_val = Inr raw_bytes \<Longrightarrow>
     3 \<le> length raw_bytes \<Longrightarrow>
     py_int 16 (bytes_hex (take (length raw_bytes - 3) raw_bytes)) = Inl err \<Longrightarrow>
     idtimestamp_to_datetime_run utcfromtimestamp truediv_1000 id_val0 (Inl err)"
| dt_raise_utcfromtimestamp:
    "length (strip_0x id_val0) \<in> {16, 18} \<Longrightarrow>
     epoch_strip (strip_0x id_val0) 1 (epoch, id_val) \<Longrightarrow>
     length id_val = 16 \<Longrightarrow> bytes_fromhex id_val = Inr raw_bytes \<Longrightarrow>
     3 \<le> length raw_bytes \<Longrightarrow>
     py_int 16 (bytes_hex (take (length raw_bytes - 3) raw_bytes)) = Inr t \<Longrightarrow>
     utcfromtimestamp (truediv_1000 (t + epoch * (2 ^ 40 - 1))) = None \<Longrightarrow>
     idtimestamp_to_datetime_run utcfromtimestamp truediv_1000 id_val0 (Inl TimestampError)"
| dt_return:
    "length (strip_0x id_val0) \<in> {16, 18} \<Longrightarrow>
     epoch_strip (strip_0x id_val0) 1 (epoch, id_val) \<Longrightarrow>
     length id_val = 16 \<Longrightarrow> bytes_fromhex id_val = Inr raw_bytes \<Longrightarrow>
     3 \<le> length raw_bytes \<Longrightarrow>
     py_int 16 (bytes_hex (take (length raw_bytes - 3) raw_bytes)) = Inr t \<Longrightarrow>
     utcfromtimestamp (truediv_1000 (t + epoch * (2 ^ 40 - 1))) = Some dt \<Longrightarrow>
     idtimestamp_to_datetime_run utcfromtimestamp truediv_1000 id_val0
       (Inr (dt, t + epoch * (2 ^ 40 - 1), truediv_1000 (t + epoch * (2 ^ 40 - 1))))"

subsection \<open>Notions of the specification\<close>

text \<open>The hexadecimal digits, and the strings made of them.\<close>

definition hexchars :: "char list" where
  "hexchars = ''0123456789abcdefABCDEF''"

definition is_hexstr :: "string \<Rightarrow> bool" where
  "is_hexstr s = list_all (\<lambda>c. c \<in> set hexchars) s"

text \<open>The decimal digits, and the number a string of them writes in base 10.\<close>

definition is_decstr :: "string \<Rightarrow> bool" where
  "is_decstr s = list_all (\<lambda>c. c \<in> set ''0123456789'') s"

definition dec_value :: "string \<Rightarrow> nat" where
  "dec_value s = foldl (\<lambda>a c. 10 * a + (of_char c - 48)) 0 s"

text \<open>The big-endian unsigned integer that a sequence of bytes writes.\<close>

definition be_uint :: "byte list \<Rightarrow> nat" where
  "be_uint bs = foldl (\<lambda>a b. 256 * a + b) 0 bs"

text \<open>The bytes that a string of hexadecimal digits writes, two digits to a byte.\<close>

fun hex_bytes :: "string \<Rightarrow> byte list" where
  "hex_bytes (c # d # cs) = (16 * digit_value c + digit_value d) # hex_bytes cs"
| "hex_bytes _ = []"

text \<open>The payload: the last 16 characters of the identifier without its prefix.\<close>

definition payload :: "string \<Rightarrow> string" where
  "payload s = drop (length (strip_0x s) - 16) (strip_0x s)"

text \<open>
  The epoch selector: 1 for a 16-character identifier, what \<^verbatim>\<open>int\<close> parses from the
  leading 2 characters of an 18-character one.
\<close>

definition epoch_selector :: "string \<Rightarrow> error + int" where
  "epoch_selector s =
     (if length (strip_0x s) = 18 then py_int 10 (take 2 (strip_0x s)) else Inr 1)"


text \<open>
  A library for the examples: the float is the number of milliseconds itself, and
  \<^verbatim>\<open>utcfromtimestamp\<close> covers the years 1970 through 2038 only (from 0 up to \<open>2^31\<close>
  seconds), a restriction of the platform's \<^verbatim>\<open>gmtime\<close> that the documentation of
  \<^verbatim>\<open>datetime.utcfromtimestamp\<close> calls common.
\<close>

definition utcfromtimestamp_1970_2038 :: "int \<Rightarrow> int option" where
  "utcfromtimestamp_1970_2038 ms = (if 0 \<le> ms \<and> ms < 2147483648000 then Some ms else None)"

section \<open>Facts about the built-ins\<close>

lemma digit_value_char:
  assumes "digit_value c < 36"
  shows "\<not> py_isspace c" "(of_char c :: nat) < 128" "c \<noteq> CHR ''_''" "c \<noteq> CHR ''+''" "c \<noteq> CHR ''-''"
  using assms by (auto simp: digit_value_def py_isspace_def Let_def split: if_splits)

lemma digit_value_x: "digit_value CHR ''x'' = 33" "digit_value CHR ''X'' = 33"
  by (simp_all add: digit_value_def)

lemma no_double_underscore:
  "list_all (\<lambda>c. c \<noteq> CHR ''_'') ds \<Longrightarrow> \<not> double_underscore ds"
  by (induction ds rule: double_underscore.induct) auto

lemma transform_ascii:
  "list_all (\<lambda>c. digit_value c < 36) ds \<Longrightarrow> transform_decimal_and_space ds = ds"
  unfolding transform_decimal_and_space_def
  by (simp add: list_all_iff digit_value_char(2))

lemma PyLong_FromString_digits:
  assumes ne: "ds \<noteq> []" and dig: "list_all (\<lambda>c. digit_value c < base) ds"
    and base: "base = 10 \<or> base = 16"
  shows "PyLong_FromString base ds = Some (int (digits_value base ds))"
proof -
  have d36: "\<And>c. c \<in> set ds \<Longrightarrow> digit_value c < 36"
    using dig base by (auto simp: list_all_iff)
  obtain c cs where ds: "ds = c # cs" using ne by (cases ds) auto
  have c: "digit_value c < base" "\<not> py_isspace c" "c \<noteq> CHR ''_''" "c \<noteq> CHR ''+''" "c \<noteq> CHR ''-''"
    using dig d36[of c] digit_value_char[of c] by (auto simp: ds)
  have s1: "dropWhile py_isspace ds = ds" using c by (simp add: ds)
  have s2: "take 1 ds \<noteq> ''+''" "take 1 ds \<noteq> ''-''" "take 1 ds \<noteq> ''_''" using c by (simp_all add: ds)
  have pre: "\<not> has_base_prefix base ds"
    using base dig by (auto simp: has_base_prefix_def list_all_iff digit_value_x split: list.splits)
  have tw: "takeWhile (\<lambda>c. digit_value c < base \<or> c = CHR ''_'') ds = ds"
    using dig by (simp add: list_all_iff)
  have dw: "dropWhile (\<lambda>c. digit_value c < base \<or> c = CHR ''_'') ds = []"
    using dig by (simp add: list_all_iff)
  have nu: "list_all (\<lambda>c. c \<noteq> CHR ''_'') ds"
    using d36 digit_value_char(3) by (auto simp: list_all_iff)
  have "last ds \<in> set ds" using ne by simp
  then have lst: "last ds \<noteq> CHR ''_''"
    using nu by (auto simp: list_all_iff)
  have nd: "\<not> double_underscore ds" by (rule no_double_underscore[OF nu])
  have str2: "(if take 1 ds = ''+'' \<or> take 1 ds = ''-'' then drop 1 ds else ds) = ds"
    using s2 by simp
  show ?thesis
    unfolding PyLong_FromString_def Let_def s1 str2
    by (simp only: pre if_False tw dw s2 nd lst ne simp_thms dropWhile.simps if_True)
qed

lemma hexdigit_table:
  "list_all (\<lambda>k. digit_value (hexdigit k) = k) [0..<16]"
  by code_simp

lemma digit_value_hexdigit:
  assumes "n < 16" shows "digit_value (hexdigit n) = n"
  using hexdigit_table assms by (simp add: list_all_iff)

lemma bytes_hex_Cons:
  "bytes_hex (b # bs) = hexdigit (b div 16) # hexdigit (b mod 16) # bytes_hex bs"
  by (simp add: bytes_hex_def)

lemma bytes_hex_Nil: "bytes_hex [] = []"
  by (simp add: bytes_hex_def)

lemma bytes_hex_digits:
  "list_all (\<lambda>b. b < 256) bs \<Longrightarrow> list_all (\<lambda>c. digit_value c < 16) (bytes_hex bs)"
proof (induction bs)
  case Nil
  then show ?case by (simp add: bytes_hex_Nil)
next
  case (Cons b bs)
  then have "b div 16 < 16" "b mod 16 < 16" by simp_all (arith)
  with Cons show ?case by (simp add: bytes_hex_Cons digit_value_hexdigit)
qed

lemma foldl_bytes_hex:
  "list_all (\<lambda>b. b < 256) bs \<Longrightarrow>
   foldl (\<lambda>a c. a * 16 + digit_value c) a (bytes_hex bs) = foldl (\<lambda>a b. 256 * a + b) a bs"
proof (induction bs arbitrary: a)
  case Nil
  then show ?case by (simp add: bytes_hex_Nil)
next
  case (Cons b bs)
  then have lt: "b div 16 < 16" "b mod 16 < 16" by simp_all (arith)
  have eq: "(a * 16 + b div 16) * 16 + b mod 16 = 256 * a + b" by arith
  have "foldl (\<lambda>a c. a * 16 + digit_value c) a (bytes_hex (b # bs)) =
        foldl (\<lambda>a c. a * 16 + digit_value c) ((a * 16 + b div 16) * 16 + b mod 16) (bytes_hex bs)"
    using lt by (simp add: bytes_hex_Cons digit_value_hexdigit)
  also have "\<dots> = foldl (\<lambda>a b. 256 * a + b) (256 * a + b) bs"
    unfolding eq using Cons by simp
  finally show ?case by simp
qed

lemma digits_value_plain:
  "list_all (\<lambda>c. digit_value c < 36) ds \<Longrightarrow>
   digits_value base ds = foldl (\<lambda>a c. a * base + digit_value c) 0 ds"
proof -
  assume a: "list_all (\<lambda>c. digit_value c < 36) ds"
  have "filter (\<lambda>c. c \<noteq> CHR ''_'') ds = ds"
    using a digit_value_char(3) by (auto simp: list_all_iff intro!: filter_True)
  then show ?thesis by (simp add: digits_value_def)
qed

lemma digits_value_bytes_hex:
  assumes "list_all (\<lambda>b. b < 256) bs"
  shows "digits_value 16 (bytes_hex bs) = be_uint bs"
proof -
  have "list_all (\<lambda>c. digit_value c < 36) (bytes_hex bs)"
    using bytes_hex_digits[OF assms] by (auto simp: list_all_iff)
  then show ?thesis
    by (simp add: digits_value_plain foldl_bytes_hex[OF assms] be_uint_def)
qed

lemma py_int_bytes_hex:
  assumes ne: "bs \<noteq> []" and lt: "list_all (\<lambda>b. b < 256) bs"
  shows "py_int 16 (bytes_hex bs) = Inr (int (be_uint bs))"
proof -
  have dig: "list_all (\<lambda>c. digit_value c < 16) (bytes_hex bs)"
    by (rule bytes_hex_digits[OF lt])
  then have d36: "list_all (\<lambda>c. digit_value c < 36) (bytes_hex bs)"
    by (auto simp: list_all_iff)
  have hne: "bytes_hex bs \<noteq> []" using ne by (cases bs) (simp_all add: bytes_hex_Cons)
  show ?thesis
    by (simp add: py_int_def transform_ascii[OF d36]
        PyLong_FromString_digits[OF hne dig] digits_value_bytes_hex[OF lt])
qed

lemma py_int_empty: "py_int 16 [] = Inl (InvalidLiteral 16 [])"
  by (simp add: py_int_def transform_decimal_and_space_def PyLong_FromString_def has_base_prefix_def)

lemma fromhex_loop_bytes:
  "fromhex_loop s = Some bs \<Longrightarrow> list_all (\<lambda>b. b < 256) bs \<and> 2 * length bs \<le> length s"
proof (induction s arbitrary: bs rule: fromhex_loop.induct)
  case 1
  then show ?case by simp
next
  case (2 c)
  then show ?case by (simp split: if_splits)
next
  case (3 c d cs)
  show ?case
  proof (cases "py_isspace c")
    case True
    with 3 show ?thesis by fastforce
  next
    case False
    with 3(3) obtain bs' where dv: "digit_value c < 16" "digit_value d < 16"
      and bs': "fromhex_loop cs = Some bs'" and bs: "bs = (digit_value c * 16 + digit_value d) # bs'"
      by (auto split: if_splits)
    from 3(2)[OF False _ bs'] dv have "list_all (\<lambda>b. b < 256) bs' \<and> 2 * length bs' \<le> length cs"
      by simp
    moreover have "digit_value c * 16 + digit_value d < 256" using dv by linarith
    ultimately show ?thesis by (simp add: bs)
  qed
qed

lemma bytes_fromhex_bytes:
  "bytes_fromhex s = Inr bs \<Longrightarrow> list_all (\<lambda>b. b < 256) bs \<and> 2 * length bs \<le> length s"
  using fromhex_loop_bytes[of s bs]
  by (auto simp: bytes_fromhex_def split: if_splits option.splits)

lemma hexchars_digit:
  "c \<in> set hexchars \<Longrightarrow> digit_value c < 16"
  by (auto simp: hexchars_def digit_value_def)

lemma is_hexstr_digits:
  "is_hexstr s \<Longrightarrow> list_all (\<lambda>c. digit_value c < 16) s"
  by (auto simp: is_hexstr_def list_all_iff hexchars_digit)

lemma length_hex_bytes: "length (hex_bytes s) = length s div 2"
  by (induction s rule: hex_bytes.induct) simp_all

lemma fromhex_loop_digits:
  "list_all (\<lambda>c. digit_value c < 16) s \<Longrightarrow> even (length s) \<Longrightarrow>
     fromhex_loop s = Some (hex_bytes s)"
proof (induction s rule: fromhex_loop.induct)
  case 1
  then show ?case by simp
next
  case (2 c)
  then show ?case by simp
next
  case (3 c d cs)
  from 3(3) have dc: "digit_value c < 16" and dd: "digit_value d < 16"
    and hcs: "list_all (\<lambda>c. digit_value c < 16) cs"
    by simp_all
  from 3(4) have ev: "even (length cs)" by simp
  have nsp: "\<not> py_isspace c" using dc digit_value_char(1)[of c] by simp
  from 3(2)[OF nsp _ hcs ev] dc dd have "fromhex_loop cs = Some (hex_bytes cs)"
    by simp
  with nsp dc dd show ?case by simp
qed

lemma bytes_fromhex_hexstr:
  assumes "is_hexstr s" "even (length s)"
  shows "bytes_fromhex s = Inr (hex_bytes s)"
proof -
  have dig: "list_all (\<lambda>c. digit_value c < 16) s" by (rule is_hexstr_digits[OF assms(1)])
  then have "\<And>c. c \<in> set s \<Longrightarrow> (of_char c :: nat) < 128"
    using digit_value_char(2) by (auto simp: list_all_iff)
  then have "\<not> list_ex (\<lambda>c. (128::nat) \<le> of_char c) s"
    by (auto simp: list_ex_iff not_le)
  then show ?thesis
    by (simp add: bytes_fromhex_def fromhex_loop_digits[OF dig assms(2)])
qed

text \<open>The body of both functions after the epoch strip.\<close>

lemma unixms_16:
  assumes "length (strip_0x s) = 16"
  shows "unixms s ep =
    (case bytes_fromhex (strip_0x s) of
       Inl e \<Rightarrow> Inl e
     | Inr bs \<Rightarrow>
         (if length bs < 3 then Inl TooShort
          else (case py_int 16 (bytes_hex (take (length bs - 3) bs)) of
                  Inl e \<Rightarrow> Inl e
                | Inr t \<Rightarrow> Inr (t + ep * (2 ^ 40 - 1)))))"
  using assms by (simp add: unixms_def Let_def split: sum.splits)

lemma unixms_18:
  assumes "length (strip_0x s) = 18"
  shows "unixms s ep =
    (case py_int 10 (take 2 (strip_0x s)) of
       Inl e \<Rightarrow> Inl e
     | Inr v \<Rightarrow>
        (case bytes_fromhex (drop 2 (strip_0x s)) of
           Inl e \<Rightarrow> Inl e
         | Inr bs \<Rightarrow>
             (if length bs < 3 then Inl TooShort
              else (case py_int 16 (bytes_hex (take (length bs - 3) bs)) of
                      Inl e \<Rightarrow> Inl e
                    | Inr t \<Rightarrow> Inr (t + v * (2 ^ 40 - 1))))))"
  using assms by (simp add: unixms_def Let_def split: sum.splits)

lemma unixms_other:
  assumes "length (strip_0x s) \<noteq> 16" "length (strip_0x s) \<noteq> 18"
  shows "unixms s ep = Inl (InvalidLength (length (strip_0x s)))"
  using assms by (simp add: unixms_def Let_def)

lemma idtimestamp_to_datetime_16:
  assumes "length (strip_0x s) = 16"
  shows "idtimestamp_to_datetime U D s =
    (case bytes_fromhex (strip_0x s) of
       Inl e \<Rightarrow> Inl e
     | Inr bs \<Rightarrow>
         (if length bs < 3 then Inl TooShort
          else (case py_int 16 (bytes_hex (take (length bs - 3) bs)) of
                  Inl e \<Rightarrow> Inl e
                | Inr t \<Rightarrow>
                    (case U (D (t + 1 * (2 ^ 40 - 1))) of
                       None \<Rightarrow> Inl TimestampError
                     | Some dt \<Rightarrow> Inr (dt, t + 1 * (2 ^ 40 - 1), D (t + 1 * (2 ^ 40 - 1)))))))"
  using assms by (simp add: idtimestamp_to_datetime_def Let_def split: sum.splits option.splits)

lemma idtimestamp_to_datetime_18:
  assumes "length (strip_0x s) = 18"
  shows "idtimestamp_to_datetime U D s =
    (case py_int 10 (take 2 (strip_0x s)) of
       Inl e \<Rightarrow> Inl e
     | Inr v \<Rightarrow>
        (case bytes_fromhex (drop 2 (strip_0x s)) of
           Inl e \<Rightarrow> Inl e
         | Inr bs \<Rightarrow>
             (if length bs < 3 then Inl TooShort
              else (case py_int 16 (bytes_hex (take (length bs - 3) bs)) of
                      Inl e \<Rightarrow> Inl e
                    | Inr t \<Rightarrow>
                        (case U (D (t + v * (2 ^ 40 - 1))) of
                           None \<Rightarrow> Inl TimestampError
                         | Some dt \<Rightarrow>
                             Inr (dt, t + v * (2 ^ 40 - 1), D (t + v * (2 ^ 40 - 1))))))))"
  using assms by (simp add: idtimestamp_to_datetime_def Let_def split: sum.splits option.splits)

lemma idtimestamp_to_datetime_unixms:
  "idtimestamp_to_datetime U D s =
     (case unixms s 1 of
        Inl e \<Rightarrow> Inl e
      | Inr v \<Rightarrow>
          (case U (D v) of
             None \<Rightarrow> Inl TimestampError
           | Some dt \<Rightarrow> Inr (dt, v, D v)))"
proof -
  consider "length (strip_0x s) = 16" | "length (strip_0x s) = 18"
    | "length (strip_0x s) \<noteq> 16" "length (strip_0x s) \<noteq> 18" by blast
  then show ?thesis
  proof cases
    case 1
    show ?thesis
      unfolding unixms_16[OF 1] idtimestamp_to_datetime_16[OF 1]
      by (simp split: sum.splits option.splits)
  next
    case 2
    show ?thesis
      unfolding unixms_18[OF 2] idtimestamp_to_datetime_18[OF 2]
      by (simp split: sum.splits option.splits)
  next
    case 3
    then show ?thesis
      by (simp add: unixms_other idtimestamp_to_datetime_def Let_def)
  qed
qed

lemma be_uint_bound:
  "list_all (\<lambda>b. b < 256) bs \<Longrightarrow> be_uint bs < 256 ^ length bs"
proof -
  have "list_all (\<lambda>b. b < 256) bs \<Longrightarrow> a < 256 ^ k \<Longrightarrow>
        foldl (\<lambda>a b. 256 * a + b) a bs < 256 ^ (k + length bs)" for a k :: nat
  proof (induction bs arbitrary: a k)
    case Nil
    then show ?case by simp
  next
    case (Cons b bs)
    then have "b < 256" "Suc a \<le> 256 ^ k" by simp_all
    then have "256 * a + b < 256 * Suc a" by simp
    also have "\<dots> \<le> 256 * 256 ^ k" using \<open>Suc a \<le> 256 ^ k\<close> by simp
    finally have "256 * a + b < 256 ^ Suc k" by simp
    from Cons.IH[OF _ this] Cons.prems(1) show ?case by simp
  qed
  from this[of 0 0] show "list_all (\<lambda>b. b < 256) bs \<Longrightarrow> be_uint bs < 256 ^ length bs"
    by (simp add: be_uint_def)
qed

lemma digits_value_bound:
  assumes "list_all (\<lambda>c. digit_value c < base \<or> c = CHR ''_'') ds" "0 < base"
  shows "digits_value base ds < base ^ length ds"
proof -
  have step: "list_all (\<lambda>c. digit_value c < base) xs \<Longrightarrow> a < base ^ k \<Longrightarrow>
        foldl (\<lambda>a c. a * base + digit_value c) a xs < base ^ (k + length xs)" for a k xs
  proof (induction xs arbitrary: a k)
    case Nil
    then show ?case by simp
  next
    case (Cons c cs)
    then have "digit_value c < base" "Suc a \<le> base ^ k" by simp_all
    then have "a * base + digit_value c < Suc a * base" by simp
    also have "\<dots> \<le> base ^ k * base" using \<open>Suc a \<le> base ^ k\<close> by (rule mult_le_mono1)
    finally have "a * base + digit_value c < base ^ Suc k" by (simp add: mult.commute)
    from Cons.IH[OF _ this] Cons.prems(1) show ?case by simp
  qed
  let ?xs = "filter (\<lambda>c. c \<noteq> CHR ''_'') ds"
  have "list_all (\<lambda>c. digit_value c < base) ?xs"
    using assms(1) by (auto simp: list_all_iff)
  from step[OF this, of 0 0] have "digits_value base ds < base ^ length ?xs"
    by (simp add: digits_value_def)
  also have "\<dots> \<le> base ^ length ds"
    using assms(2) by (intro power_increasing) (simp_all add: Suc_leI)
  finally show ?thesis .
qed

lemma length_transform_chars: "length (transform_chars u) \<le> length u"
  by (induction u) (auto simp: Let_def)

lemma length_transform: "length (transform_decimal_and_space u) \<le> length u"
  by (simp add: transform_decimal_and_space_def length_transform_chars)

lemma PyLong_FromString_10_bound:
  assumes "PyLong_FromString 10 s = Some v"
  shows "- (10 ^ (length s - 1)) < v \<and> v < 10 ^ length s"
proof -
  define str1 where "str1 = dropWhile py_isspace s"
  define str2 where "str2 = (if take 1 str1 = ''+'' \<or> take 1 str1 = ''-'' then drop 1 str1 else str1)"
  define digits where "digits = takeWhile (\<lambda>c. digit_value c < 10 \<or> c = CHR ''_'') str2"
  have np: "\<not> has_base_prefix 10 t" for t
    by (simp add: has_base_prefix_def split: list.splits)
  have v: "v = (if take 1 str1 = ''-'' then - int (digits_value 10 digits)
                else int (digits_value 10 digits))"
    using assms unfolding PyLong_FromString_def Let_def
      str1_def[symmetric] str2_def[symmetric]
    by (simp add: np digits_def split: if_splits)
  have l1: "length str1 \<le> length s" unfolding str1_def by (rule length_dropWhile_le)
  have l2: "length str2 \<le> length str1" unfolding str2_def by simp
  have l3: "length digits \<le> length str2" unfolding digits_def by (rule length_takeWhile_le)
  have "list_all (\<lambda>c. digit_value c < 10 \<or> c = CHR ''_'') digits"
    unfolding digits_def list_all_iff using set_takeWhileD by fastforce
  then have b: "digits_value 10 digits < 10 ^ length digits"
    by (rule digits_value_bound) simp
  show ?thesis
  proof (cases "take 1 str1 = ''-''")
    case True
    then have "str1 \<noteq> []" by auto
    then have "length str2 \<le> length s - 1"
      using True l1 unfolding str2_def by (cases str1) auto
    with l3 have "length digits \<le> length s - 1" by simp
    then have "(10::nat) ^ length digits \<le> 10 ^ (length s - 1)"
      by (intro power_increasing) simp_all
    with b have "digits_value 10 digits < 10 ^ (length s - 1)" by (rule less_le_trans)
    then have "int (digits_value 10 digits) < 10 ^ (length s - 1)"
      by (metis of_nat_less_iff of_nat_numeral of_nat_power)
    then have lo: "- (10 ^ (length s - 1)) < - int (digits_value 10 digits)" by simp
    have "- int (digits_value 10 digits) \<le> 0" by simp
    also have "(0::int) < 10 ^ length s" by simp
    finally have hi: "- int (digits_value 10 digits) < 10 ^ length s" .
    from True v have "v = - int (digits_value 10 digits)" by simp
    with lo hi show ?thesis by blast
  next
    case False
    from l1 l2 l3 have "length digits \<le> length s" by simp
    then have "(10::nat) ^ length digits \<le> 10 ^ length s"
      by (intro power_increasing) simp_all
    with b have "digits_value 10 digits < 10 ^ length s" by (rule less_le_trans)
    then have "int (digits_value 10 digits) < 10 ^ length s"
      by (metis of_nat_less_iff of_nat_numeral of_nat_power)
    then have hi: "int (digits_value 10 digits) < 10 ^ length s" .
    have "- (10 ^ (length s - 1)) < (0::int)" by simp
    also have "(0::int) \<le> int (digits_value 10 digits)" by simp
    finally have lo: "- (10 ^ (length s - 1)) < int (digits_value 10 digits)" .
    from False v have "v = int (digits_value 10 digits)" by simp
    with lo hi show ?thesis by blast
  qed
qed

lemma py_int_10_two_chars:
  assumes "py_int 10 u = Inr v" "length u = 2"
  shows "- 9 \<le> v \<and> v \<le> 99"
proof -
  let ?t = "transform_decimal_and_space u"
  from assms(1) have p: "PyLong_FromString 10 ?t = Some v"
    by (simp add: py_int_def split: option.splits)
  have len: "length ?t \<le> 2" using length_transform[of u] assms(2) by simp
  from PyLong_FromString_10_bound[OF p]
  have lo: "- (10 ^ (length ?t - 1)) < v" and hi: "v < 10 ^ length ?t" by simp_all
  have "(10::int) ^ (length ?t - 1) \<le> 10 ^ 1"
    using len by (intro power_increasing) simp_all
  then have "(10::int) ^ (length ?t - 1) \<le> 10" by simp
  with lo have "- 10 < v" by linarith
  moreover have "(10::int) ^ length ?t \<le> 10 ^ 2"
    using len by (intro power_increasing) simp_all
  then have "(10::int) ^ length ?t \<le> 100" by simp
  with hi have "v < 100" by linarith
  ultimately show ?thesis by simp
qed

lemma time_component_bound:
  assumes fh: "bytes_fromhex p = Inr bs" and len: "length p = 16"
    and t: "py_int 16 (bytes_hex (take (length bs - 3) bs)) = Inr t"
  shows "0 \<le> t \<and> t < 2 ^ 40"
proof -
  let ?tc = "take (length bs - 3) bs"
  from bytes_fromhex_bytes[OF fh] len
  have lt: "list_all (\<lambda>b. b < 256) bs" and l8: "length bs \<le> 8" by simp_all
  have lt': "list_all (\<lambda>b. b < 256) ?tc"
    using lt by (auto simp: list_all_iff dest: in_set_takeD)
  have ne: "?tc \<noteq> []"
  proof
    assume "?tc = []"
    with t show False by (simp add: bytes_hex_Nil py_int_empty)
  qed
  from t py_int_bytes_hex[OF ne lt'] have tv: "t = int (be_uint ?tc)" by simp
  have "length ?tc \<le> 5" using l8 by simp
  then have "(256::nat) ^ length ?tc \<le> 256 ^ 5" by (intro power_increasing) simp_all
  with be_uint_bound[OF lt'] have "be_uint ?tc < 256 ^ 5" by (rule less_le_trans)
  then have "be_uint ?tc < 1099511627776" by simp
  then show ?thesis unfolding tv by simp
qed

lemma unixms_range:
  assumes "unixms s 1 = Inr v"
  shows "- 9 * (2 ^ 40 - 1) \<le> v \<and> v \<le> 100 * (2 ^ 40 - 1)"
proof -
  consider "length (strip_0x s) = 16" | "length (strip_0x s) = 18"
    | "length (strip_0x s) \<noteq> 16" "length (strip_0x s) \<noteq> 18" by blast
  then show ?thesis
  proof cases
    case 1
    from assms obtain bs t where fh: "bytes_fromhex (strip_0x s) = Inr bs"
      and t: "py_int 16 (bytes_hex (take (length bs - 3) bs)) = Inr t"
      and v: "v = t + 1 * (2 ^ 40 - 1)"
      unfolding unixms_16[OF 1] by (auto split: sum.splits if_splits)
    from time_component_bound[OF fh 1 t] show ?thesis unfolding v by simp
  next
    case 2
    from assms obtain e bs t where e: "py_int 10 (take 2 (strip_0x s)) = Inr e"
      and fh: "bytes_fromhex (drop 2 (strip_0x s)) = Inr bs"
      and t: "py_int 16 (bytes_hex (take (length bs - 3) bs)) = Inr t"
      and v: "v = t + e * (2 ^ 40 - 1)"
      unfolding unixms_18[OF 2] by (auto split: sum.splits if_splits)
    have "length (drop 2 (strip_0x s)) = 16" using 2 by simp
    from time_component_bound[OF fh this t] have tb: "0 \<le> t" "t < 2 ^ 40" by simp_all
    have "length (take 2 (strip_0x s)) = 2" using 2 by simp
    from py_int_10_two_chars[OF e this] have eb: "- 9 \<le> e" "e \<le> 99" by simp_all
    show ?thesis unfolding v using tb eb by simp
  next
    case 3
    with assms show ?thesis by (simp add: unixms_other)
  qed
qed

lemma payload_time_component:
  assumes hex: "is_hexstr p" and len: "length p = 16"
  shows "bytes_fromhex p = Inr (hex_bytes p)" "length (hex_bytes p) = 8"
    "py_int 16 (bytes_hex (take 5 (hex_bytes p))) =
       Inr (int (be_uint (take 5 (hex_bytes p))))"
proof -
  show fh: "bytes_fromhex p = Inr (hex_bytes p)"
    using bytes_fromhex_hexstr[OF hex] len by simp
  show l8: "length (hex_bytes p) = 8" by (simp add: length_hex_bytes len)
  have lt: "list_all (\<lambda>b. b < 256) (take 5 (hex_bytes p))"
    using bytes_fromhex_bytes[OF fh] by (auto simp: list_all_iff dest: in_set_takeD)
  have ne: "take 5 (hex_bytes p) \<noteq> []" using l8 by auto
  show "py_int 16 (bytes_hex (take 5 (hex_bytes p))) =
       Inr (int (be_uint (take 5 (hex_bytes p))))"
    by (rule py_int_bytes_hex[OF ne lt])
qed


lemma unixms_cong_strip:
  "strip_0x s = strip_0x s' \<Longrightarrow> unixms s ep = unixms s' ep"
  by (simp add: unixms_def)

lemma strip_0x_prefixed: "strip_0x (CHR ''0'' # CHR ''x'' # p) = p"
  by (simp add: strip_0x_def startswith_def)

lemma strip_0x_second_digit:
  assumes "length s \<ge> 2" "digit_value (s ! 1) < 16"
  shows "strip_0x s = s"
proof -
  obtain c d cs where s: "s = c # d # cs"
    using assms(1) by (cases s; cases "tl s") auto
  with assms(2) have "d \<noteq> CHR ''x''" using digit_value_x(1) by auto
  then show ?thesis by (simp add: s strip_0x_def startswith_def)
qed

lemma dec_value_dec_str: "dec_value (dec_str n) = n"
proof (induction n rule: dec_str.induct)
  case (1 n)
  show ?case
  proof (cases "n < 10")
    case True
    then show ?thesis by (subst dec_str.simps) (simp add: dec_value_def)
  next
    case False
    have "n mod 10 < 10" by simp
    then have "of_char (char_of (48 + n mod 10) :: char) = 48 + n mod 10"
      by simp
    with 1[OF False] False show ?thesis
      by (subst dec_str.simps) (simp add: dec_value_def)
  qed
qed

lemma decchar_digit:
  "c \<in> set ''0123456789'' \<Longrightarrow> digit_value c < 10 \<and> digit_value c = of_char c - 48"
  by (auto simp: digit_value_def)

lemma is_decstr_lt:
  "is_decstr e \<Longrightarrow> list_all (\<lambda>c. digit_value c < 10) e"
  unfolding is_decstr_def list_all_iff using decchar_digit by blast

lemma is_decstr_eq:
  "is_decstr e \<Longrightarrow> list_all (\<lambda>c. digit_value c = of_char c - 48) e"
  unfolding is_decstr_def list_all_iff using decchar_digit by blast

lemma foldl_dec_value:
  "list_all (\<lambda>c. digit_value c = of_char c - 48) e \<Longrightarrow>
   foldl (\<lambda>a c. a * 10 + digit_value c) a e = foldl (\<lambda>a c. 10 * a + (of_char c - 48)) a e"
proof (induction e arbitrary: a)
  case Nil
  then show ?case by simp
next
  case (Cons c e)
  then have c: "digit_value c = of_char c - 48"
    and e: "list_all (\<lambda>c. digit_value c = of_char c - 48) e"
    by simp_all
  have "foldl (\<lambda>a c. a * 10 + digit_value c) a (c # e) =
        foldl (\<lambda>a c. a * 10 + digit_value c) (10 * a + (of_char c - 48)) e"
    by (simp add: c mult.commute)
  also have "\<dots> = foldl (\<lambda>a c. 10 * a + (of_char c - 48)) (10 * a + (of_char c - 48)) e"
    by (rule Cons.IH[OF e])
  finally show ?case by simp
qed

lemma py_int_decstr:
  assumes dec: "is_decstr e" and ne: "e \<noteq> []"
  shows "py_int 10 e = Inr (int (dec_value e))"
proof -
  note dig = is_decstr_lt[OF dec]
  have d36: "list_all (\<lambda>c. digit_value c < 36) e"
    using dig by (auto simp: list_all_iff)
  have "digits_value 10 e = dec_value e"
    by (simp only: digits_value_plain[OF d36] foldl_dec_value[OF is_decstr_eq[OF dec]]
        dec_value_def)
  then show ?thesis
    by (simp add: py_int_def transform_ascii[OF d36] PyLong_FromString_digits[OF ne dig])
qed

lemma unixms_decimal_epoch:
  assumes e: "length e = 2" "is_decstr e" and p: "length p = 16"
  shows "unixms (e @ p) ep =
    (case bytes_fromhex p of
       Inl err \<Rightarrow> Inl err
     | Inr bs \<Rightarrow>
         (if length bs < 3 then Inl TooShort
          else (case py_int 16 (bytes_hex (take (length bs - 3) bs)) of
                  Inl err \<Rightarrow> Inl err
                | Inr t \<Rightarrow> Inr (t + int (dec_value e) * (2 ^ 40 - 1)))))"
proof -
  obtain c d where cd: "e = [c, d]"
    using e(1) by (cases e; cases "tl e") auto
  have "digit_value d < 10" using is_decstr_lt[OF e(2)] by (simp add: cd)
  then have "digit_value ((e @ p) ! 1) < 16" by (simp add: cd)
  then have sp: "strip_0x (e @ p) = e @ p"
    using e(1) by (intro strip_0x_second_digit) simp_all
  have l: "length (strip_0x (e @ p)) = 18" using e(1) p by (simp add: sp)
  have ne: "e \<noteq> []" using e(1) by auto
  have t: "take 2 (e @ p) = e" and dr: "drop 2 (e @ p) = p" using e(1) by simp_all
  show ?thesis
    unfolding unixms_18[OF l] sp t dr py_int_decstr[OF e(2) ne]
    by simp
qed

lemma py_int_error: "py_int base u = Inl e \<Longrightarrow> e = InvalidLiteral base u"
  by (auto simp: py_int_def split: option.splits)

lemma unixms_hex_not_too_short:
  assumes "is_hexstr (payload s)"
  shows "unixms s ep \<noteq> Inl TooShort"
proof -
  consider "length (strip_0x s) = 16" | "length (strip_0x s) = 18"
    | "length (strip_0x s) \<noteq> 16" "length (strip_0x s) \<noteq> 18" by blast
  then show ?thesis
  proof cases
    case 1
    then have p: "payload s = strip_0x s" by (simp add: payload_def)
    from assms have h: "is_hexstr (strip_0x s)" by (simp add: p)
    show ?thesis
      unfolding unixms_16[OF 1]
      by (simp add: payload_time_component[OF h 1])
  next
    case 2
    then have p: "payload s = drop 2 (strip_0x s)" by (simp add: payload_def)
    from assms have h: "is_hexstr (drop 2 (strip_0x s))" by (simp add: p)
    have l: "length (drop 2 (strip_0x s)) = 16" using 2 by simp
    show ?thesis
    proof (cases "py_int 10 (take 2 (strip_0x s))")
      case (Inl e)
      then show ?thesis
        unfolding unixms_18[OF 2] using py_int_error[OF Inl] by simp
    next
      case (Inr v)
      then show ?thesis
        unfolding unixms_18[OF 2] by (simp add: payload_time_component[OF h l])
    qed
  next
    case 3
    then show ?thesis by (simp add: unixms_other)
  qed
qed

lemma tuple_iff_unixms:
  "idtimestamp_to_datetime U D s = Inr (dt, ms, secs) \<longleftrightarrow>
   unixms s 1 = Inr ms \<and> secs = D ms \<and> U secs = Some dt"
  by (auto simp: idtimestamp_to_datetime_unixms split: sum.splits option.splits)










text \<open>The definitions that evaluate the decoders on a concrete identifier.\<close>

lemmas eval_defs =
  unixms_def idtimestamp_to_datetime_def strip_0x_def startswith_def
  bytes_fromhex_def py_isspace_def digit_value_def bytes_hex_def hexdigit_def py_int_def
  transform_decimal_and_space_def PyLong_FromString_def has_base_prefix_def
  digits_value_def Let_def payload_def is_hexstr_def hexchars_def epoch_selector_def
  be_uint_def is_decstr_def dec_value_def

section \<open>The claims\<close>




text \<open>
  C2. For two 18-character identifiers with the same 16-character payload whose leading 2
  characters are decimal digits, the results differ by the difference of the two decimal
  numbers times \<open>2^40 - 1\<close>: the epoch selector is read in base 10. When the payload
  does not decode, both fail with the same error. The milliseconds of two tuples of the
  decode and format function differ by the same amount.
\<close>

theorem epoch_delta:
  assumes "length e1 = 2" and "is_decstr e1" and "length e2 = 2" and "is_decstr e2"
    and "length p = 16"
  shows "unixms (e2 @ p) ep =
      (case unixms (e1 @ p) ep of
         Inl err \<Rightarrow> Inl err
       | Inr r \<Rightarrow> Inr (r + (int (dec_value e2) - int (dec_value e1)) * (2 ^ 40 - 1))) \<and>
    (\<forall>d1 m1 f1 d2 m2 f2.
       idtimestamp_to_datetime U D (e1 @ p) = Inr (d1, m1, f1) \<longrightarrow>
       idtimestamp_to_datetime U D (e2 @ p) = Inr (d2, m2, f2) \<longrightarrow>
       m2 = m1 + (int (dec_value e2) - int (dec_value e1)) * (2 ^ 40 - 1))"
proof -
  have step: "unixms (e2 @ p) x =
      (case unixms (e1 @ p) x of
         Inl err \<Rightarrow> Inl err
       | Inr r \<Rightarrow> Inr (r + (int (dec_value e2) - int (dec_value e1)) * (2 ^ 40 - 1)))" for x
    unfolding unixms_decimal_epoch[OF assms(1,2,5)] unixms_decimal_epoch[OF assms(3,4,5)]
    by (simp add: algebra_simps split: sum.splits)
  have "m2 = m1 + (int (dec_value e2) - int (dec_value e1)) * (2 ^ 40 - 1)"
    if a: "idtimestamp_to_datetime U D (e1 @ p) = Inr (d1, m1, f1)"
      and b: "idtimestamp_to_datetime U D (e2 @ p) = Inr (d2, m2, f2)"
    for d1 m1 f1 d2 m2 f2
  proof -
    from a have "unixms (e1 @ p) 1 = Inr m1"
      by (auto simp: idtimestamp_to_datetime_unixms split: sum.splits option.splits)
    moreover from b have "unixms (e2 @ p) 1 = Inr m2"
      by (auto simp: idtimestamp_to_datetime_unixms split: sum.splits option.splits)
    ultimately show ?thesis using step[of 1] by simp
  qed
  with step show ?thesis by blast
qed

theorem epoch_delta_witness:
  "length ''01'' = 2 \<and> is_decstr ''01'' \<and> length ''03'' = 2 \<and> is_decstr ''03'' \<and>
   length ''0000000000000000'' = 16 \<and> dec_value ''03'' = 3 \<and> dec_value ''01'' = 1 \<and>
   unixms ''010000000000000000'' 1 = Inr 1099511627775 \<and>
   unixms ''030000000000000000'' 1 = Inr 3298534883325"
proof -
  have h1: "length ''01'' = 2" and h3: "length ''03'' = 2"
    and h5: "length ''0000000000000000'' = 16" by simp_all
  have h2: "is_decstr ''01''" and h4: "is_decstr ''03''" by (simp_all add: is_decstr_def)
  have v: "dec_value ''03'' = 3" "dec_value ''01'' = 1" by (simp_all add: dec_value_def)
  have a: "unixms ''010000000000000000'' 1 = Inr 1099511627775" by (simp add: eval_defs)
  from epoch_delta[OF h1 h2 h3 h4 h5, where ep = 1 and U = Some and D = id]
  have "unixms ''030000000000000000'' 1 = Inr 3298534883325"
    by (simp add: a v)
  with h1 h2 h3 h4 h5 v a show ?thesis by blast
qed

text \<open>
  C3. Every identifier of 16 or 18 hexadecimal digits should decode. The code refuses the
  18 hexadecimal digits \<^verbatim>\<open>0a0000000000000000\<close>: \<^verbatim>\<open>int\<close> reads the epoch selector in
  base 10 and raises on the digit \<^verbatim>\<open>a\<close>.
\<close>

theorem hex_epoch_rejected:
  "is_hexstr ''0a0000000000000000'' \<and> length (strip_0x ''0a0000000000000000'') = 18 \<and>
   unixms ''0a0000000000000000'' 1 = Inl (InvalidLiteral 10 ''0a'') \<and>
   idtimestamp_to_datetime U D ''0a0000000000000000'' = Inl (InvalidLiteral 10 ''0a'')"
  by (simp add: eval_defs)

text \<open>
  C4. For every input string whose length after the removal of the prefix is neither 16
  nor 18 (the empty string and the lengths 15, 17 and 19 among them), both decoders fail
  with the invalid-length error; the error carries the observed length, and its message
  ends with the decimal numeral of that length.
\<close>

theorem invalid_length:
  assumes "length (strip_0x s) \<noteq> 16" and "length (strip_0x s) \<noteq> 18"
  shows "unixms s ep = Inl (InvalidLength (length (strip_0x s))) \<and>
    idtimestamp_to_datetime U D s = Inl (InvalidLength (length (strip_0x s))) \<and>
    message (InvalidLength (length (strip_0x s))) =
      ''idtimestamp must be 16 or 18 hex chars, got '' @ dec_str (length (strip_0x s)) \<and>
    dec_value (dec_str (length (strip_0x s))) = length (strip_0x s)"
  using assms
  by (simp add: unixms_other idtimestamp_to_datetime_def dec_value_dec_str)

theorem invalid_length_witness:
  "length (strip_0x []) \<noteq> 16 \<and> length (strip_0x []) \<noteq> 18 \<and>
   unixms [] 1 = Inl (InvalidLength 0) \<and>
   message (InvalidLength 0) = ''idtimestamp must be 16 or 18 hex chars, got 0'' \<and>
   unixms ''0x00000000000000000'' 1 = Inl (InvalidLength 17) \<and>
   message (InvalidLength 17) = ''idtimestamp must be 16 or 18 hex chars, got 17''"
proof -
  have e: "length (strip_0x []) = 0" by (simp add: strip_0x_def startswith_def)
  have f: "length (strip_0x ''0x00000000000000000'') = 17"
    by (simp add: strip_0x_def startswith_def)
  have d0: "dec_str 0 = ''0''" by (simp add: dec_str.simps char_of_eq_iff)
  have d17: "dec_str 17 = ''17''" by (simp add: dec_str.simps char_of_eq_iff)
  from invalid_length[where s = "[]" and ep = 1 and U = Some and D = id]
  have a: "unixms [] 1 = Inl (InvalidLength 0)" by (simp add: e)
  from invalid_length[where s = "''0x00000000000000000''" and ep = 1 and U = Some
      and D = id]
  have b: "unixms ''0x00000000000000000'' 1 = Inl (InvalidLength 17)" by (simp add: f)
  from a b show ?thesis by (simp add: e d0 d17)
qed

text \<open>
  C5. For every string \<open>p\<close> of 16 hexadecimal digits, decoding \<open>p\<close> and decoding
  \<open>p\<close> behind the prefix \<^verbatim>\<open>0x\<close> give the same result, in both functions, and the
  decoder returns a number.
\<close>

theorem prefix_insensitive:
  assumes "length p = 16" and "is_hexstr p"
  shows "unixms (''0x'' @ p) ep = unixms p ep \<and>
    idtimestamp_to_datetime U D (''0x'' @ p) = idtimestamp_to_datetime U D p \<and>
    unixms p ep = Inr (int (be_uint (take 5 (hex_bytes p))) + ep * (2 ^ 40 - 1))"
proof -
  have "digit_value (p ! 1) < 16"
    using is_hexstr_digits[OF assms(2)] assms(1) by (simp add: list_all_length)
  then have sp: "strip_0x p = p" using assms(1) by (intro strip_0x_second_digit) simp_all
  then have eq: "strip_0x (''0x'' @ p) = strip_0x p" by (simp add: strip_0x_prefixed)
  have l: "length (strip_0x p) = 16" using assms(1) sp by simp
  have v: "unixms p ep = Inr (int (be_uint (take 5 (hex_bytes p))) + ep * (2 ^ 40 - 1))"
    unfolding unixms_16[OF l] sp
    by (simp add: payload_time_component[OF assms(2,1)])
  show ?thesis
    using unixms_cong_strip[OF eq] v by (simp add: idtimestamp_to_datetime_unixms)
qed

theorem prefix_insensitive_witness:
  "length ''0123456789abcdef'' = 16 \<and> is_hexstr ''0123456789abcdef'' \<and>
   unixms ''0x0123456789abcdef'' 1 = Inr 1104398346120 \<and>
   unixms ''0123456789abcdef'' 1 = Inr 1104398346120"
proof -
  have h1: "length ''0123456789abcdef'' = 16" by simp
  have h2: "is_hexstr ''0123456789abcdef''" by (simp add: is_hexstr_def hexchars_def)
  from prefix_insensitive[OF h1 h2, where ep = 1 and U = Some and D = id] h1 h2
  show ?thesis
    by (simp add: be_uint_def digit_value_def)
qed

text \<open>
  C6. The decode and format function returns a tuple exactly when the decoder returns a
  number and the library accepts it, and the milliseconds value of the tuple is then the
  decoded number: the seconds and the date are computed from it, and it is returned as
  it was decoded.
\<close>

theorem format_keeps_milliseconds:
  "idtimestamp_to_datetime U D s = Inr (dt, ms, secs) \<longleftrightarrow>
   unixms s 1 = Inr ms \<and> secs = D ms \<and> U secs = Some dt"
  by (rule tuple_iff_unixms)

theorem format_keeps_milliseconds_witness:
  "idtimestamp_to_datetime Some id ''0000000000000000'' =
     Inr (1099511627775, 1099511627775, 1099511627775) \<and>
   unixms ''0000000000000000'' 1 = Inr 1099511627775"
proof -
  have a: "unixms ''0000000000000000'' 1 = Inr 1099511627775" by (simp add: eval_defs)
  from format_keeps_milliseconds[of Some id "''0000000000000000''" 1099511627775
      1099511627775 1099511627775] a
  show ?thesis by simp
qed

text \<open>
  C7. The claim that the too-short branch is unreachable once the length checks have
  passed fails: the checks count characters, and \<^verbatim>\<open>bytes.fromhex\<close> skips white space. An
  identifier of 16 spaces passes both length checks, decodes to no byte at all and raises
  the too-short error.
\<close>

theorem too_short_reachable:
  "length (strip_0x ''                '') = 16 \<and>
   bytes_fromhex ''                '' = Inr [] \<and>
   unixms ''                '' 1 = Inl TooShort \<and>
   idtimestamp_to_datetime Some id ''                '' = Inl TooShort"
  by (simp add: eval_defs)

text \<open>
  C7, as the code has it. For every identifier whose payload (its last 16 characters
  after the removal of the prefix) consists of hexadecimal digits, neither decoder raises
  the too-short error, and a payload of 16 such digits decodes to 8 bytes.
\<close>

theorem too_short_needs_non_hex:
  assumes "is_hexstr (payload s)"
  shows "unixms s ep \<noteq> Inl TooShort \<and> idtimestamp_to_datetime U D s \<noteq> Inl TooShort \<and>
    (length (payload s) = 16 \<longrightarrow>
       bytes_fromhex (payload s) = Inr (hex_bytes (payload s)) \<and>
       length (hex_bytes (payload s)) = 8)"
proof -
  have a: "unixms s x \<noteq> Inl TooShort" for x
    by (rule unixms_hex_not_too_short[OF assms])
  have b: "idtimestamp_to_datetime U D s \<noteq> Inl TooShort"
    using a[of 1] by (auto simp: idtimestamp_to_datetime_unixms split: sum.splits option.splits)
  from a b payload_time_component(1,2)[OF assms] show ?thesis by blast
qed

theorem too_short_needs_non_hex_witness:
  "is_hexstr (payload ''0x0123456789abcdef'') \<and>
   length (payload ''0x0123456789abcdef'') = 16 \<and>
   bytes_fromhex (payload ''0x0123456789abcdef'') = Inr [1, 35, 69, 103, 137, 171, 205, 239] \<and>
   unixms ''0x0123456789abcdef'' 1 \<noteq> Inl TooShort"
proof -
  have p: "payload ''0x0123456789abcdef'' = ''0123456789abcdef''"
    by (simp add: payload_def strip_0x_def startswith_def)
  have h: "is_hexstr (payload ''0x0123456789abcdef'')"
    by (simp add: p is_hexstr_def hexchars_def)
  have l: "length (payload ''0x0123456789abcdef'') = 16" by (simp add: p)
  from too_short_needs_non_hex[OF h, where ep = 1 and U = Some and D = id] h l
  show ?thesis by (simp add: p digit_value_def)
qed

text \<open>
  C8. \<^verbatim>\<open>decode("0000000000000000")\<close> succeeds and returns exactly 1099511627775: the time
  component is 0 and the default epoch selector 1 contributes \<open>1 * (2^40 - 1)\<close>. The
  decoder-only function returns this number; the decode and format function puts the same
  number in its tuple, beside what the library makes of it.
\<close>

theorem decode_zero_payload:
  "unixms ''0000000000000000'' 1 = Inr 1099511627775 \<and>
   idtimestamp_to_datetime U D ''0000000000000000'' =
     (case U (D 1099511627775) of
        None \<Rightarrow> Inl TimestampError
      | Some dt \<Rightarrow> Inr (dt, 1099511627775, D 1099511627775))"
  by (simp add: eval_defs)



text \<open>
  C10. The claim fails where the library refuses a timestamp that the decoder returns.
  With a \<^verbatim>\<open>utcfromtimestamp\<close> that covers the years 1970 through 2038 only, \<open>unixms\<close>
  returns 2199023255550 (a day of the year 2039) for \<^verbatim>\<open>020000000000000000\<close>, and
  \<open>idtimestamp_to_datetime\<close> fails on the same input.
\<close>

theorem decoders_disagree:
  "unixms ''020000000000000000'' 1 = Inr 2199023255550 \<and>
   idtimestamp_to_datetime utcfromtimestamp_1970_2038 id ''020000000000000000'' =
     Inl TimestampError"
  by (simp add: eval_defs utcfromtimestamp_1970_2038_def)

text \<open>
  C10, as amended. On every input string, when \<open>unixms\<close> with its default epoch 1 fails,
  \<open>idtimestamp_to_datetime\<close> fails with the same error, and when
  \<open>idtimestamp_to_datetime\<close> returns a tuple, its milliseconds value is the number that
  \<open>unixms\<close> returns. If moreover the library call accepts every timestamp from
  \<open>-9 * (2^40 - 1)\<close> to \<open>100 * (2^40 - 1)\<close> milliseconds (the years 1656 to 5454, all
  that the decoders can return), then one function fails exactly when the other fails,
  with the same error, and the number that one returns is the milliseconds value that
  the other returns.
\<close>

theorem decoders_agree:
  "(\<forall>e. unixms s 1 = Inl e \<longrightarrow> idtimestamp_to_datetime U D s = Inl e) \<and>
   (\<forall>dt v f. idtimestamp_to_datetime U D s = Inr (dt, v, f) \<longrightarrow> unixms s 1 = Inr v) \<and>
   ((\<forall>v. - 9 * (2 ^ 40 - 1) \<le> v \<and> v \<le> 100 * (2 ^ 40 - 1) \<longrightarrow> U (D v) \<noteq> None) \<longrightarrow>
      (\<forall>e. unixms s 1 = Inl e \<longleftrightarrow> idtimestamp_to_datetime U D s = Inl e) \<and>
      (\<forall>v. unixms s 1 = Inr v \<longleftrightarrow> (\<exists>dt f. idtimestamp_to_datetime U D s = Inr (dt, v, f))))"
proof (cases "unixms s 1")
  case (Inl e)
  then show ?thesis by (simp add: idtimestamp_to_datetime_unixms)
next
  case (Inr v)
  have a: "\<forall>e. unixms s 1 = Inl e \<longrightarrow> idtimestamp_to_datetime U D s = Inl e"
    using Inr by simp
  have b: "\<forall>dt v f. idtimestamp_to_datetime U D s = Inr (dt, v, f) \<longrightarrow> unixms s 1 = Inr v"
    by (simp add: tuple_iff_unixms)
  have c: "(\<forall>e. unixms s 1 = Inl e \<longleftrightarrow> idtimestamp_to_datetime U D s = Inl e) \<and>
      (\<forall>v. unixms s 1 = Inr v \<longleftrightarrow> (\<exists>dt f. idtimestamp_to_datetime U D s = Inr (dt, v, f)))"
    if h: "\<forall>v. - 9 * (2 ^ 40 - 1) \<le> v \<and> v \<le> 100 * (2 ^ 40 - 1) \<longrightarrow> U (D v) \<noteq> None"
  proof -
    from unixms_range[OF Inr] h obtain dt where "U (D v) = Some dt" by blast
    with Inr show ?thesis by (auto simp: idtimestamp_to_datetime_unixms)
  qed
  from a b c show ?thesis by blast
qed

theorem decoders_agree_witness:
  "unixms ''0000000000000000'' 1 = Inr 1099511627775 \<and>
   idtimestamp_to_datetime
      (\<lambda>f. if - 62135596800000 \<le> f \<and> f < 253402300800000 then Some f else None) id
      ''0000000000000000'' = Inr (1099511627775, 1099511627775, 1099511627775) \<and>
   unixms ''0000000000000000x'' 1 = Inl (InvalidLength 17) \<and>
   idtimestamp_to_datetime
      (\<lambda>f. if - 62135596800000 \<le> f \<and> f < 253402300800000 then Some f else None) id
      ''0000000000000000x'' = Inl (InvalidLength 17)"
proof -
  let ?U = "\<lambda>f::int. if - 62135596800000 \<le> f \<and> f < 253402300800000 then Some f else None"
  have h: "\<forall>v. - 9 * (2 ^ 40 - 1) \<le> v \<and> v \<le> 100 * (2 ^ 40 - 1) \<longrightarrow> ?U (id v) \<noteq> None"
    by simp
  have a: "unixms ''0000000000000000'' 1 = Inr 1099511627775"
    by (simp add: eval_defs)
  have b: "unixms ''0000000000000000x'' 1 = Inl (InvalidLength 17)"
    by (simp add: unixms_def strip_0x_def startswith_def)
  have da: "(\<forall>e. unixms s 1 = Inl e \<longleftrightarrow> idtimestamp_to_datetime ?U id s = Inl e) \<and>
      (\<forall>v. unixms s 1 = Inr v \<longleftrightarrow> (\<exists>dt f. idtimestamp_to_datetime ?U id s = Inr (dt, v, f)))"
    for s
    using decoders_agree[of s ?U id] h by blast
  from da[of "''0000000000000000''"] a
  obtain dt f where c: "idtimestamp_to_datetime ?U id ''0000000000000000'' =
      Inr (dt, 1099511627775, f)"
    by blast
  then have "dt = 1099511627775 \<and> f = 1099511627775"
    by (simp add: tuple_iff_unixms a split: if_splits)
  with c have c': "idtimestamp_to_datetime ?U id ''0000000000000000'' =
      Inr (1099511627775, 1099511627775, 1099511627775)"
    by simp
  from da[of "''0000000000000000x''"] b
  have d: "idtimestamp_to_datetime ?U id ''0000000000000000x'' = Inl (InvalidLength 17)"
    by blast
  from a b c' d show ?thesis by blast
qed

end
